theory Spec2Isabelle
  imports Complex_Main
begin

section \<open>Python values used by \<open>parsedvd/IsoFileCore.py\<close>\<close>

text \<open>
  Exceptions are values.  \<open>IndexError\<close> and \<open>KeyError\<close> are Python's own,
  \<open>ValueError\<close> carries the message the source passes, and \<open>VSError\<close> is
  \<open>vapoursynth.Error\<close>, raised by \<open>std.Trim\<close> for an empty frame range.
\<close>

datatype error = IndexError | KeyError | TypeError | ValueError string | VSError

text \<open>
  The subscript \<open>xs[i]\<close> of a list: \<open>i\<close> from \<open>0\<close> to \<open>len(xs) - 1\<close> reads from the
  front, \<open>i\<close> from \<open>-len(xs)\<close> to \<open>-1\<close> reads from the back, anything else raises.
\<close>

definition py_index :: "'a list \<Rightarrow> int \<Rightarrow> error + 'a" where
  "py_index xs i =
     (if 0 \<le> i \<and> i < int (length xs) then Inr (xs ! nat i)
      else if i < 0 \<and> - int (length xs) \<le> i then Inr (xs ! nat (int (length xs) + i))
      else Inl IndexError)"

text \<open>\<open>itertools.accumulate\<close>: the running sums of a list.\<close>

fun accumulate_from :: "int \<Rightarrow> int list \<Rightarrow> int list" where
  "accumulate_from acc [] = []"
| "accumulate_from acc (x # xs) = (acc + x) # accumulate_from (acc + x) xs"

fun accumulate :: "int list \<Rightarrow> int list" where
  "accumulate [] = []"
| "accumulate (x # xs) = x # accumulate_from x xs"

section \<open>Chapter extraction: \<open>get_ifo_info\<close>\<close>

text \<open>
  The records decoded by \<open>pyparsedvd.vts_ifo.load_vts_pgci\<close>: a playback time has a
  frame-rate code and four time fields, a program chain is a list of playback times.
  An IFO file of the mount path is its stem and its decoded program chains.
\<close>

record PlaybackTime =
  fps :: int
  hours :: int
  minutes :: int
  seconds :: int
  frames :: int

record ProgramChain =
  playback_times :: "PlaybackTime list"

record IfoFile =
  stem :: string
  program_chains :: "ProgramChain list"

record IFOFileInfo =
  chapters :: "int list list"
  ifo_fps :: rat
  is_multiple_IFOs :: bool

text \<open>
  The body of the loop over the program chains (lines 143 to 155).  The table
  \<open>vts_ifo.FRAMERATE\<close> belongs to the decoder library and is a parameter: a partial
  map from frame-rate codes to rationals, a missing key being Python's \<open>KeyError\<close>.
  \<open>all\<close> over an empty list is true, and then \<open>dvd_fps_s[0]\<close> raises.
\<close>

definition prog_frames :: "(int \<rightharpoonup> rat) \<Rightarrow> ProgramChain \<Rightarrow> error + (rat \<times> int list)" where
  "prog_frames FRAMERATE prog =
     (let dvd_fps_s = map fps (playback_times prog) in
      if list_all (\<lambda>dvd_fps. hd dvd_fps_s = dvd_fps) dvd_fps_s then
        (case dvd_fps_s of
           [] \<Rightarrow> Inl IndexError
         | c # _ \<Rightarrow>
            (case FRAMERATE c of
               None \<Rightarrow> Inl KeyError
             | Some fr \<Rightarrow>
                 (let raw_fps = (if fst (quotient_of fr) = 30000 then 30 else 25) in
                  Inr (fr, 0 # map (\<lambda>pb_time. frames pb_time
                           + (hours pb_time * 3600 + minutes pb_time * 60 + seconds pb_time) * raw_fps)
                         (playback_times prog)))))
      else Inl (ValueError ''IsoFile: No VFR allowed!''))"

text \<open>
  The loop itself threads the last frame rate and appends to \<open>split_chapters\<close>; the
  first exception ends it.
\<close>

fun prog_loop :: "(int \<rightharpoonup> rat) \<Rightarrow> rat \<Rightarrow> int list list \<Rightarrow> ProgramChain list
    \<Rightarrow> error + (rat \<times> int list list)" where
  "prog_loop FRAMERATE fr split_chapters [] = Inr (fr, split_chapters)"
| "prog_loop FRAMERATE fr split_chapters (prog # progs) =
     (case prog_frames FRAMERATE prog of
        Inl e \<Rightarrow> Inl e
      | Inr (fr', chapter_frames) \<Rightarrow>
          prog_loop FRAMERATE fr' (split_chapters @ [chapter_frames]) progs)"

text \<open>
  The program chains the loop walks: with more than one IFO file the first chain of
  every file is dropped (\<open>program_chains[int(m_ifos):]\<close>).
\<close>

definition collect_chains :: "IfoFile list \<Rightarrow> ProgramChain list" where
  "collect_chains mount_glob =
     (let ifo_files = filter (\<lambda>f. stem f \<noteq> ''VIDEO_TS'') mount_glob;
          m_ifos = (length ifo_files > 1)
      in concat (map (\<lambda>f. drop (if m_ifos then 1 else 0) (program_chains f)) ifo_files))"

text \<open>
  \<open>get_ifo_info\<close>, given the sorted result of the glob over the mount path.
\<close>

definition get_ifo_info :: "(int \<rightharpoonup> rat) \<Rightarrow> IfoFile list \<Rightarrow> error + IFOFileInfo" where
  "get_ifo_info FRAMERATE mount_glob =
     (let ifo_files = filter (\<lambda>f. stem f \<noteq> ''VIDEO_TS'') mount_glob;
          m_ifos = (length ifo_files > 1)
      in case prog_loop FRAMERATE (Fract 30000 1001) [] (collect_chains mount_glob) of
           Inl e \<Rightarrow> Inl e
         | Inr (fr, split_chapters) \<Rightarrow>
             Inr \<lparr>chapters = map accumulate split_chapters, ifo_fps = fr,
                  is_multiple_IFOs = m_ifos\<rparr>)"

section \<open>Clips\<close>

text \<open>
  A VapourSynth clip is the list of its frames; \<open>num_frames\<close> is its length and
  \<open>+\<close> on clips (\<open>std.Splice\<close>) is concatenation.  Slicing \<open>clip[start:stop]\<close> is
  \<open>VideoNode.__getitem__\<close>: \<open>slice.indices(num_frames)\<close> clamps both bounds as for a
  Python list, then \<open>std.Trim(first=start, last=stop - 1)\<close> cuts the frames out, and
  \<open>Trim\<close> refuses a range with no frame.
\<close>

definition slice_bound :: "int \<Rightarrow> int option \<Rightarrow> int \<Rightarrow> int" where
  "slice_bound n bound dflt =
     (case bound of
        None \<Rightarrow> dflt
      | Some i \<Rightarrow> (if i < 0 then max (i + n) 0 else min i n))"

definition vs_slice :: "'f list \<Rightarrow> int option \<Rightarrow> int option \<Rightarrow> error + 'f list" where
  "vs_slice clip start stop =
     (let n = int (length clip);
          s = slice_bound n start 0;
          e = slice_bound n stop n
      in if s < e then Inr (take (nat (e - s)) (drop (nat s) clip)) else Inl VSError)"

section \<open>Splitting and joining titles\<close>

text \<open>\<open>[frame[-1] for frame in split_chapters]\<close>: an empty inner list raises.\<close>

fun last_frames :: "int list list \<Rightarrow> error + int list" where
  "last_frames [] = Inr []"
| "last_frames (frame # rest) =
     (case py_index frame (-1) of
        Inl e \<Rightarrow> Inl e
      | Inr l \<Rightarrow> (case last_frames rest of Inl e \<Rightarrow> Inl e | Inr ls \<Rightarrow> Inr (l # ls)))"

text \<open>\<open>[clip[s:e] for s, e in zip(durations[:-1], durations[1:])]\<close>.\<close>

fun trim_titles :: "'f list \<Rightarrow> (int \<times> int) list \<Rightarrow> error + 'f list list" where
  "trim_titles clip [] = Inr []"
| "trim_titles clip ((s, e) # rest) =
     (case vs_slice clip (Some s) (Some e) of
        Inl err \<Rightarrow> Inl err
      | Inr c \<Rightarrow> (case trim_titles clip rest of Inl err \<Rightarrow> Inl err | Inr cs \<Rightarrow> Inr (c # cs)))"

text \<open>
  \<open>__split_chapters_clips\<close> (lines 104 to 122).  \<open>clip0\<close> is \<open>self.__clip\<close>.  The
  menu entry is appended to the list that was passed in, so the result's chapter list
  is that same list, extended.
\<close>

definition split_chapters_clips ::
    "'f list \<Rightarrow> int list list \<Rightarrow> int \<Rightarrow> error + (int list list \<times> 'f list list)" where
  "split_chapters_clips clip0 split_chapters dvd_menu_length =
     (case last_frames split_chapters of
        Inl e \<Rightarrow> Inl e
      | Inr ls \<Rightarrow>
         (let durations = accumulate (0 # ls) in
          case vs_slice clip0 (Some dvd_menu_length) None of
            Inl e \<Rightarrow> Inl e
          | Inr clip \<Rightarrow>
             (case trim_titles clip (zip (butlast durations) (tl durations)) of
                Inl e \<Rightarrow> Inl e
              | Inr clips \<Rightarrow>
                 (if dvd_menu_length \<noteq> 0 then
                    (case vs_slice clip0 None (Some dvd_menu_length) of
                       Inl e \<Rightarrow> Inl e
                     | Inr menu \<Rightarrow>
                         Inr (split_chapters @ [[0, dvd_menu_length]], clips @ [menu]))
                  else Inr (split_chapters, clips)))))"

text \<open>\<open>__gen_joined_clip\<close> (lines 184 to 192).\<close>

definition gen_joined_clip :: "'f list list \<Rightarrow> error + 'f list" where
  "gen_joined_clip split_clips =
     (case split_clips of
        [] \<Rightarrow> Inl IndexError
      | c # cs \<Rightarrow> Inr (foldl (@) c cs))"

text \<open>
  \<open>__gen_joined_chapts\<close> (lines 194 to 204).  \<open>joined_chapters\<close> is the list object
  \<open>spl_chapts[0]\<close> and \<open>+=\<close> extends it in place, so the first entry of the split
  chapters changes with it: the function returns the split chapters as they are
  afterwards, and the joined list.  \<open>joined_chapters[-1]\<close> is read once for every
  non-zero \<open>r\<close>, before the extension.
\<close>

fun join_loop :: "int list \<Rightarrow> int list list \<Rightarrow> error + int list" where
  "join_loop joined_chapters [] = Inr joined_chapters"
| "join_loop joined_chapters (rrange # rest) =
     (let nz = filter (\<lambda>r. r \<noteq> 0) rrange in
      if nz \<noteq> [] \<and> joined_chapters = [] then Inl IndexError
      else join_loop (joined_chapters @ map (\<lambda>r. r + last joined_chapters) nz) rest)"

definition gen_joined_chapts :: "int list list \<Rightarrow> error + (int list list \<times> int list)" where
  "gen_joined_chapts spl_chapts =
     (case spl_chapts of
        [] \<Rightarrow> Inl IndexError
      | c # cs \<Rightarrow>
         (case join_loop c cs of
            Inl e \<Rightarrow> Inl e
          | Inr joined_chapters \<Rightarrow> Inr (joined_chapters # cs, joined_chapters)))"

text \<open>
  Split, then join: lines 182, 206 and 207, and again lines 241 to 247.  The result is
  \<open>(split_clips, split_chapters, joined_clip, joined_chapters)\<close>.
\<close>

definition split_and_join ::
    "'f list \<Rightarrow> int list list \<Rightarrow> int
      \<Rightarrow> error + ('f list list \<times> int list list \<times> 'f list \<times> int list)" where
  "split_and_join clip0 chs dvd_menu_length =
     (case split_chapters_clips clip0 chs dvd_menu_length of
        Inl e \<Rightarrow> Inl e
      | Inr (sc, clips) \<Rightarrow>
         (case gen_joined_clip clips of
            Inl e \<Rightarrow> Inl e
          | Inr jclip \<Rightarrow>
             (case gen_joined_chapts sc of
                Inl e \<Rightarrow> Inl e
              | Inr (sc', jchapts) \<Rightarrow> Inr (clips, sc', jclip, jchapts))))"

section \<open>The correction pass of strict mode\<close>

text \<open>
  The inner loop over the boundaries of one title (lines 221 to 235): the boundaries
  kept before the first one with \<open>boundary + offset \<ge> num_frames\<close>, and whether there
  was one (the \<open>break\<close>).
\<close>

fun walk_title :: "int \<Rightarrow> int \<Rightarrow> int list \<Rightarrow> int list \<times> bool" where
  "walk_title num_frames offset [] = ([], False)"
| "walk_title num_frames offset (b # bs) =
     (if b + offset < num_frames
      then (case walk_title num_frames offset bs of (kept, found) \<Rightarrow> (b # kept, found))
      else ([], True))"

text \<open>
  The outer loop (lines 220 to 239).  \<open>sc\<close> is \<open>self.split_chapters\<close>, \<open>i\<close> the title
  index, \<open>title # rest\<close> the entries of \<open>sc\<close> from \<open>i\<close> on, \<open>new\<close> the local list
  \<open>split_chapters\<close>.  At the break the clamp is appended to entry \<open>i\<close>, the entries
  \<open>i + 1\<close> up to \<open>len(sc) - int(dvd_menu_length > 0)\<close> become \<open>[0, 1]\<close>, and with a menu
  the last entry becomes \<open>sc[-1]\<close>.  Without a break \<open>sc[i][-1]\<close> is added to the offset.
\<close>

fun corr_loop :: "int \<Rightarrow> int \<Rightarrow> int list list \<Rightarrow> nat \<Rightarrow> int \<Rightarrow> int list list
    \<Rightarrow> int list list \<Rightarrow> error + int list list" where
  "corr_loop num_frames dvd_menu_length sc i offset [] new = Inr new"
| "corr_loop num_frames dvd_menu_length sc i offset (title # rest) new =
     (case walk_title num_frames offset title of
        (kept, True) \<Rightarrow>
          (let new1 = new[i := kept @ [num_frames - dvd_menu_length - int (length sc) + int i + 2]];
               new2 = fold (\<lambda>k acc. acc[k := [0, 1]])
                        [i + 1 ..< length sc - (if dvd_menu_length > 0 then 1 else 0)] new1
           in Inr (if dvd_menu_length \<noteq> 0 then new2[length sc - 1 := last sc] else new2))
      | (kept, False) \<Rightarrow>
          (if title = [] then Inl IndexError
           else corr_loop num_frames dvd_menu_length sc (Suc i) (offset + last title) rest
                  (new[i := kept])))"

definition correct_chapters :: "int \<Rightarrow> int \<Rightarrow> int list list \<Rightarrow> error + int list list" where
  "correct_chapters num_frames dvd_menu_length sc =
     corr_loop num_frames dvd_menu_length sc 0 0 sc (replicate (length sc) [])"

section \<open>\<open>split_titles\<close>\<close>

text \<open>
  The index information of the indexer: the sizes of its videos and its frame records.
\<close>

record IndexFileInfo =
  videos :: "int list"
  frame_data :: "nat list"

definition get_dvd_menu_length :: "IndexFileInfo \<Rightarrow> error + int" where
  "get_dvd_menu_length idx_info =
     (case videos idx_info of
        [] \<Rightarrow> Inl IndexError
      | vts_0_size # _ \<Rightarrow>
          Inr (if vts_0_size > 8192 then int (length (frame_data idx_info)) else 0))"

text \<open>
  The object: \<open>clip\<close> is \<open>self.__clip\<close> as \<open>source()\<close> returned it, \<open>ifo_info\<close> the
  cached result of \<open>get_ifo_info\<close>, \<open>index_info\<close> the entry \<open>self.index_info[0]\<close>, and
  \<open>stdout\<close> what has been printed.
\<close>

record 'f IsoFileCore =
  safe_indices :: bool
  clip :: "'f list"
  ifo_info :: IFOFileInfo
  index_info :: IndexFileInfo
  split_clips :: "'f list list option"
  split_chapters :: "int list list option"
  joined_clip :: "'f list option"
  joined_chapters :: "int list option"
  stdout :: "string list"

definition broken_chapters_warning :: string where
  "broken_chapters_warning =
     [CHR 0x0A, CHR 0x09]
     @ ''IsoFile: The chapters are broken, last few chapters ''
     @ ''and negative indices will probably give out an error. ''
     @ ''You can set safe_indices = True and trim down the chapters.''
     @ [CHR 0x0A]"

text \<open>
  \<open>split_titles\<close> (lines 163 to 249) on an object whose clip is loaded.  The first
  split works on the list \<open>ifo_info.chapters\<close> itself, so the cached \<open>ifo_info\<close>
  holds the extended list afterwards.  The result is the object; the tuple the
  source returns is its four fields.
\<close>

definition split_titles :: "'f IsoFileCore \<Rightarrow> error + 'f IsoFileCore" where
  "split_titles self =
     (case get_dvd_menu_length (index_info self) of
        Inl e \<Rightarrow> Inl e
      | Inr dvd_menu_length \<Rightarrow>
         (case split_and_join (clip self) (chapters (ifo_info self)) dvd_menu_length of
            Inl e \<Rightarrow> Inl e
          | Inr (clips, sc, jclip, jchapts) \<Rightarrow>
             (let self1 = self\<lparr>ifo_info := (ifo_info self)\<lparr>chapters := sc\<rparr>,
                               split_clips := Some clips, split_chapters := Some sc,
                               joined_clip := Some jclip, joined_chapters := Some jchapts\<rparr>;
                  num_frames = int (length (clip self))
              in case py_index jchapts (- 1) of
                   Inl e \<Rightarrow> Inl e
                 | Inr final \<Rightarrow>
                    (if final > num_frames then
                       (if \<not> safe_indices self then
                          Inr (self1\<lparr>stdout := stdout self1 @ [broken_chapters_warning]\<rparr>)
                        else
                          (case correct_chapters num_frames dvd_menu_length sc of
                             Inl e \<Rightarrow> Inl e
                           | Inr new \<Rightarrow>
                              (case split_and_join (clip self)
                                      (if dvd_menu_length = 0 then new else butlast new)
                                      dvd_menu_length of
                                 Inl e \<Rightarrow> Inl e
                               | Inr (clips2, sc2, jclip2, jchapts2) \<Rightarrow>
                                   Inr (self1\<lparr>split_clips := Some clips2,
                                              split_chapters := Some sc2,
                                              joined_clip := Some jclip2,
                                              joined_chapters := Some jchapts2\<rparr>))))
                     else Inr self1))))"

section \<open>\<open>get_title\<close>\<close>

text \<open>
  The chapter query: absent, an integer, a pair whose sides may be absent, or a list
  of queries.  The result is a clip, a list of results for a list of queries, or
  \<open>None\<close> when the joined clip was never set.
\<close>

datatype query = NoChapters | Chapter int | ChapterRange "int option" "int option"
  | ChapterList "query list"

datatype 'f title = Clip "'f list" | Clips "'f title list" | NoClip

text \<open>
  \<open>if not self.split_clips: self.split_titles()\<close> (lines 257 and 258): \<open>None\<close> and
  the empty list are both false.
\<close>

definition ensure_split :: "'f IsoFileCore \<Rightarrow> error + 'f IsoFileCore" where
  "ensure_split self =
     (if split_clips self = None \<or> split_clips self = Some [] then split_titles self
      else Inr self)"

text \<open>
  Lines 260 to 267: the boundaries and the clip the query is resolved against.
  Subscripting \<open>None\<close> and \<open>len(None)\<close> are a \<open>TypeError\<close>; the joined clip is only
  read, so it may still be \<open>None\<close> here.
\<close>

definition select_title ::
    "'f IsoFileCore \<Rightarrow> int option \<Rightarrow> error + (int list \<times> 'f list option)" where
  "select_title self clip_index =
     (case clip_index of
        Some ci \<Rightarrow>
          (case split_chapters self of
             None \<Rightarrow> Inl TypeError
           | Some sc \<Rightarrow>
              (case py_index sc ci of
                 Inl e \<Rightarrow> Inl e
               | Inr ranges \<Rightarrow>
                  (case split_clips self of
                     None \<Rightarrow> Inl TypeError
                   | Some clips \<Rightarrow>
                      (case py_index clips ci of
                         Inl e \<Rightarrow> Inl e
                       | Inr c \<Rightarrow> Inr (ranges, Some c)))))
      | None \<Rightarrow>
          (case joined_chapters self of
             None \<Rightarrow> Inl TypeError
           | Some ranges \<Rightarrow> Inr (ranges, joined_clip self)))"

text \<open>\<open>clip[start:end]\<close> on the selected clip.\<close>

definition slice_clip :: "'f list option \<Rightarrow> int \<Rightarrow> int \<Rightarrow> error + 'f title" where
  "slice_clip clp start end =
     (case clp of
        None \<Rightarrow> Inl TypeError
      | Some c \<Rightarrow>
         (case vs_slice c (Some start) (Some end) of
            Inl e \<Rightarrow> Inl e
          | Inr r \<Rightarrow> Inr (Clip r)))"

text \<open>Lines 273 to 284: the frame bounds of a single chapter.\<close>

definition chapter_bounds :: "int list \<Rightarrow> int \<Rightarrow> error + (int \<times> int)" where
  "chapter_bounds ranges c =
     (let rlength = int (length ranges) in
      case py_index ranges 0 of
        Inl e \<Rightarrow> Inl e
      | Inr start0 \<Rightarrow>
         (case py_index ranges (- 1) of
            Inl e \<Rightarrow> Inl e
          | Inr end0 \<Rightarrow>
             (if c = rlength - 1 then
                (case py_index ranges (- 2) of
                   Inl e \<Rightarrow> Inl e
                 | Inr start \<Rightarrow> Inr (start, end0))
              else if c = 0 then
                (case py_index ranges 1 of
                   Inl e \<Rightarrow> Inl e
                 | Inr end1 \<Rightarrow> Inr (start0, end1))
              else if c < 0 then
                (case py_index ranges (rlength - 1 + c) of
                   Inl e \<Rightarrow> Inl e
                 | Inr start \<Rightarrow>
                    (case py_index ranges (rlength + c) of
                       Inl e \<Rightarrow> Inl e
                     | Inr end1 \<Rightarrow> Inr (start, end1)))
              else
                (case py_index ranges c of
                   Inl e \<Rightarrow> Inl e
                 | Inr start \<Rightarrow>
                    (case py_index ranges (c + 1) of
                       Inl e \<Rightarrow> Inl e
                     | Inr end1 \<Rightarrow> Inr (start, end1))))))"

text \<open>Lines 288 to 302: the frame bounds of a pair.\<close>

definition range_bounds :: "int list \<Rightarrow> int option \<Rightarrow> int option \<Rightarrow> error + (int \<times> int)" where
  "range_bounds ranges start end =
     (let rlength = int (length ranges);
          start' = (case start of
                      None \<Rightarrow> 0
                    | Some s \<Rightarrow> (if s < 0 then rlength - 1 + s else s));
          end' = (case end of
                    None \<Rightarrow> rlength - 1
                  | Some e \<Rightarrow> (if e < 0 then rlength - 1 + e else e + 1))
      in case py_index ranges start' of
           Inl e \<Rightarrow> Inl e
         | Inr a \<Rightarrow>
            (case py_index ranges end' of
               Inl e \<Rightarrow> Inl e
             | Inr b \<Rightarrow> Inr (a, b)))"

text \<open>
  \<open>get_title\<close> (lines 251 to 306), on an object whose clip is loaded.  A list of
  queries calls \<open>get_title\<close> again for each element, on the object as the first call
  left it.
\<close>

fun get_title :: "'f IsoFileCore \<Rightarrow> int option \<Rightarrow> query \<Rightarrow> error + 'f title"
  and get_titles :: "'f IsoFileCore \<Rightarrow> int option \<Rightarrow> query list \<Rightarrow> error + 'f title list" where
  "get_title self clip_index (Chapter c) =
     (case ensure_split self of
        Inl e \<Rightarrow> Inl e
      | Inr self1 \<Rightarrow>
         (case select_title self1 clip_index of
            Inl e \<Rightarrow> Inl e
          | Inr (ranges, clp) \<Rightarrow>
             (case chapter_bounds ranges c of
                Inl e \<Rightarrow> Inl e
              | Inr (start, end) \<Rightarrow> slice_clip clp start end)))"
| "get_title self clip_index (ChapterRange start end) =
     (case ensure_split self of
        Inl e \<Rightarrow> Inl e
      | Inr self1 \<Rightarrow>
         (case select_title self1 clip_index of
            Inl e \<Rightarrow> Inl e
          | Inr (ranges, clp) \<Rightarrow>
             (case range_bounds ranges start end of
                Inl e \<Rightarrow> Inl e
              | Inr (a, b) \<Rightarrow> slice_clip clp a b)))"
| "get_title self clip_index (ChapterList qs) =
     (case ensure_split self of
        Inl e \<Rightarrow> Inl e
      | Inr self1 \<Rightarrow>
         (case select_title self1 clip_index of
            Inl e \<Rightarrow> Inl e
          | Inr (ranges, clp) \<Rightarrow>
             (case get_titles self1 clip_index qs of
                Inl e \<Rightarrow> Inl e
              | Inr rs \<Rightarrow> Inr (Clips rs))))"
| "get_title self clip_index NoChapters =
     (case ensure_split self of
        Inl e \<Rightarrow> Inl e
      | Inr self1 \<Rightarrow>
         (case select_title self1 clip_index of
            Inl e \<Rightarrow> Inl e
          | Inr (ranges, clp) \<Rightarrow>
             (case clp of None \<Rightarrow> Inr NoClip | Some c \<Rightarrow> Inr (Clip c))))"
| "get_titles self clip_index [] = Inr []"
| "get_titles self clip_index (rchap # rest) =
     (case get_title self clip_index rchap of
        Inl e \<Rightarrow> Inl e
      | Inr r \<Rightarrow>
         (case get_titles self clip_index rest of
            Inl e \<Rightarrow> Inl e
          | Inr rs \<Rightarrow> Inr (r # rs)))"

section \<open>Example data\<close>

text \<open>
  A frame-rate table with the two codes of DVD-Video, 1 for 25 fps and 3 for
  30000/1001 fps, and an object with no menu segment (its first video is not larger
  than \<open>2 << 12\<close>) on which nothing has been split yet.  They serve the examples below.
\<close>

definition dvd_FRAMERATE :: "int \<rightharpoonup> rat" where
  "dvd_FRAMERATE = [1 \<mapsto> 25, 3 \<mapsto> Fract 30000 1001]"

definition disc :: "bool \<Rightarrow> 'f list \<Rightarrow> int list list \<Rightarrow> 'f IsoFileCore" where
  "disc safe c chs =
     \<lparr>safe_indices = safe, clip = c,
      ifo_info = \<lparr>chapters = chs, ifo_fps = Fract 30000 1001, is_multiple_IFOs = False\<rparr>,
      index_info = \<lparr>videos = [0], frame_data = []\<rparr>,
      split_clips = None, split_chapters = None, joined_clip = None, joined_chapters = None,
      stdout = []\<rparr>"

text \<open>
  The same with a menu segment: the first video is larger than \<open>2 << 12\<close> and the
  index has \<open>n\<close> frame records, so \<open>dvd_menu_length\<close> is \<open>n\<close>.
\<close>

definition menu_disc :: "bool \<Rightarrow> 'f list \<Rightarrow> int list list \<Rightarrow> nat \<Rightarrow> 'f IsoFileCore" where
  "menu_disc safe c chs n = (disc safe c chs)\<lparr>index_info := \<lparr>videos = [8193], frame_data = [0..<n]\<rparr>\<rparr>"

text \<open>A playback time of \<open>secs\<close> seconds with the frame-rate code \<open>code\<close>.\<close>

definition pb :: "int \<Rightarrow> int \<Rightarrow> PlaybackTime" where
  "pb code secs = \<lparr>fps = code, hours = 0, minutes = 0, seconds = secs, frames = 0\<rparr>"

section \<open>Chapter extraction without IFO files\<close>

text \<open>
  C4 says that an empty list of IFO files makes chapter extraction raise
  \<open>NoIfoFilesFound\<close> rather than return an empty or default result.  The source has no
  such check: both loops run zero times and \<open>get_ifo_info\<close> returns the initial
  values.  The claim fails at the empty list:
\<close>

theorem no_ifo_files_counterexample:
  "\<not> isl (get_ifo_info dvd_FRAMERATE [])"
  by (simp add: get_ifo_info_def collect_chains_def)

text \<open>
  C4, amended: when no IFO file is left after the \<open>VIDEO_TS\<close> file is excluded,
  \<open>get_ifo_info\<close> raises nothing and returns no chapter lists, the frame rate
  30000/1001 it starts from, and the flag for several IFO files unset.
\<close>

theorem no_ifo_files_default:
  "filter (\<lambda>f. stem f \<noteq> ''VIDEO_TS'') mount_glob = []
   \<Longrightarrow> get_ifo_info FRAMERATE mount_glob
       = Inr \<lparr>chapters = [], ifo_fps = Fract 30000 1001, is_multiple_IFOs = False\<rparr>"
  by (simp add: get_ifo_info_def collect_chains_def)

theorem no_ifo_files_default_witness:
  "filter (\<lambda>f. stem f \<noteq> ''VIDEO_TS'') [\<lparr>stem = ''VIDEO_TS'', program_chains = []\<rparr>] = []
   \<and> get_ifo_info dvd_FRAMERATE [\<lparr>stem = ''VIDEO_TS'', program_chains = []\<rparr>]
       = Inr \<lparr>chapters = [], ifo_fps = Fract 30000 1001, is_multiple_IFOs = False\<rparr>"
  using no_ifo_files_default [of "[\<lparr>stem = ''VIDEO_TS'', program_chains = []\<rparr>]" dvd_FRAMERATE]
  by simp

section \<open>Concrete runs\<close>

lemmas split_defs = split_titles_def disc_def get_dvd_menu_length_def split_and_join_def
  split_chapters_clips_def py_index_def gen_joined_clip_def gen_joined_chapts_def
  vs_slice_def slice_bound_def correct_chapters_def

text \<open>
  One title with the boundaries \<open>[0, 100, 200, 300]\<close> over a clip of 300 frames, the
  frames being numbered: nothing overflows, and the split leaves the title as it is.
\<close>

lemma split_four_boundaries:
  "split_titles (disc False [0..<300::nat] [[0, 100, 200, 300]]) =
     Inr ((disc False [0..<300] [[0, 100, 200, 300]])
          \<lparr>split_clips := Some [[0..<300]], split_chapters := Some [[0, 100, 200, 300]],
           joined_clip := Some [0..<300], joined_chapters := Some [0, 100, 200, 300]\<rparr>)"
  by (simp add: split_defs)

lemmas get_title_defs = ensure_split_def split_four_boundaries select_title_def
  chapter_bounds_def range_bounds_def py_index_def slice_clip_def vs_slice_def slice_bound_def

text \<open>
  C1 says that in strict mode, for the single title \<open>[0, 100, 300]\<close>, no menu and 250
  decoded frames, the regenerated split and joined chapter boundaries never exceed 250.
  The run of \<open>split_titles\<close> on that input: the overflowing boundary 300 becomes
  \<open>250 - 0 - 1 + 0 + 2 = 251\<close>, and both the split and the joined boundaries end in
  251, one more than the clip has frames.
\<close>

theorem strict_single_title_run:
  "split_titles (disc True [0..<250::nat] [[0, 100, 300]]) =
     Inr ((disc True [0..<250] [[0, 100, 300]])
          \<lparr>split_clips := Some [[0..<250]], split_chapters := Some [[0, 100, 251]],
           joined_clip := Some [0..<250], joined_chapters := Some [0, 100, 251]\<rparr>)"
  by (simp add: split_defs)

text \<open>
  The same title with a menu segment of 20 frames: the entry count in the clamp now
  includes the menu entry, the clamp is \<open>250 - 20 - 2 + 0 + 2 = 230\<close>, and the joined
  boundaries end at 250, the number of frames.
\<close>

lemma strict_single_title_with_menu_run:
  "split_titles (menu_disc True [0..<250::nat] [[0, 100, 300]] 20) =
     Inr ((menu_disc True [0..<250] [[0, 100, 300, 320], [0, 20]] 20)
          \<lparr>split_clips := Some [[20..<250], [0..<20]],
           split_chapters := Some [[0, 100, 230, 250], [0, 20]],
           joined_clip := Some ([20..<250] @ [0..<20]),
           joined_chapters := Some [0, 100, 230, 250]\<rparr>)"
  by (simp add: split_defs menu_disc_def numeral_2_eq_2)

text \<open>
  C2 says that the pair \<open>(1, -1)\<close> against the boundaries \<open>[0, 100, 200, 300]\<close>
  resolves to the frames from 100 up to 300.  The run of \<open>get_title\<close>: the end \<open>-1\<close>
  becomes the index \<open>rlength - 1 + end = 2\<close>, so the bounds are 100 and 200 and the
  last chapter is left out.
\<close>

theorem range_to_minus_one_run:
  "range_bounds [0, 100, 200, 300] (Some 1) (Some (- 1)) = Inr (100, 200)
   \<and> get_title (disc False [0..<300::nat] [[0, 100, 200, 300]]) None
        (ChapterRange (Some 1) (Some (- 1))) = Inr (Clip [100..<200])"
  by (simp add: get_title_defs) (simp add: disc_def)

text \<open>
  The integer query \<open>-1\<close> is the last chapter (see below), yet the pair \<open>(-1, -1)\<close>
  has equal bounds and is refused by the clip.
\<close>

lemma range_minus_one_minus_one_run:
  "get_title (disc False [0..<300::nat] [[0, 100, 200, 300]]) None
        (ChapterRange (Some (- 1)) (Some (- 1))) = Inl VSError"
  by (simp add: get_title_defs) (simp add: disc_def)

text \<open>
  C5: against the boundaries \<open>[0, 100, 200, 300]\<close> the single chapter \<open>-1\<close> is the
  frames from 200 up to 300, the chapter \<open>0\<close> the frames from 0 up to 100, the chapter
  \<open>3\<close> (which is \<open>rlength - 1\<close>) again the frames from 200 up to 300, and every other
  \<open>c\<close> with \<open>0 < c < 3\<close> the frames from \<open>boundaries[c]\<close> up to \<open>boundaries[c + 1]\<close>.
\<close>

theorem single_chapter_queries:
  assumes "0 < c" and "c < 3"
  shows "get_title (disc False [0..<300::nat] [[0, 100, 200, 300]]) None (Chapter (- 1))
           = Inr (Clip [200..<300])
       \<and> get_title (disc False [0..<300::nat] [[0, 100, 200, 300]]) None (Chapter 0)
           = Inr (Clip [0..<100])
       \<and> get_title (disc False [0..<300::nat] [[0, 100, 200, 300]]) None (Chapter 3)
           = Inr (Clip [200..<300])
       \<and> chapter_bounds [0, 100, 200, 300] c
           = Inr ([0, 100, 200, 300] ! nat c, [0, 100, 200, 300] ! nat (c + 1))
       \<and> get_title (disc False [0..<300::nat] [[0, 100, 200, 300]]) None (Chapter c)
           = Inr (Clip [nat ([0, 100, 200, 300] ! nat c) ..< nat ([0, 100, 200, 300] ! nat (c + 1))])"
proof -
  let ?d = "disc False [0..<300::nat] [[0, 100, 200, 300]]"
  have a: "get_title ?d None (Chapter (- 1)) = Inr (Clip [200..<300])"
    by (simp add: get_title_defs) (simp add: disc_def)
  have b: "get_title ?d None (Chapter 0) = Inr (Clip [0..<100])"
    by (simp add: get_title_defs) (simp add: disc_def)
  have c: "get_title ?d None (Chapter 3) = Inr (Clip [200..<300])"
    by (simp add: get_title_defs) (simp add: disc_def)
  from assms have "c = 1 \<or> c = 2" by arith
  then have d: "chapter_bounds [0, 100, 200, 300] c
           = Inr ([0, 100, 200, 300] ! nat c, [0, 100, 200, 300] ! nat (c + 1))
       \<and> get_title ?d None (Chapter c)
           = Inr (Clip [nat ([0, 100, 200, 300] ! nat c) ..< nat ([0, 100, 200, 300] ! nat (c + 1))])"
  proof
    assume "c = 1"
    then show ?thesis by (simp add: get_title_defs) (simp add: disc_def)
  next
    assume "c = 2"
    then show ?thesis by (simp add: get_title_defs) (simp add: disc_def)
  qed
  from a b c d show ?thesis by simp
qed

theorem single_chapter_queries_witness:
  "(0::int) < 1 \<and> (1::int) < 3
   \<and> chapter_bounds [0, 100, 200, 300] 1 = Inr (100, 200)
   \<and> get_title (disc False [0..<300::nat] [[0, 100, 200, 300]]) None (Chapter 1)
       = Inr (Clip [100..<200])"
  using single_chapter_queries [of 1] by simp

section \<open>Frame rates of a program chain\<close>

lemma quotient_ntsc: "quotient_of (Fract 30000 1001) = (30000, 1001)"
  by code_simp

lemma quotient_pal: "quotient_of 25 = (25, 1)"
  by code_simp

lemma prog_frames_vfr:
  assumes "a \<in> set (playback_times prog)" and "b \<in> set (playback_times prog)"
    and "fps a \<noteq> fps b"
  shows "prog_frames FRAMERATE prog = Inl (ValueError ''IsoFile: No VFR allowed!'')"
proof -
  have "\<not> list_all (\<lambda>dvd_fps. hd (map fps (playback_times prog)) = dvd_fps)
            (map fps (playback_times prog))"
  proof
    assume all: "list_all (\<lambda>dvd_fps. hd (map fps (playback_times prog)) = dvd_fps)
                   (map fps (playback_times prog))"
    from all assms(1) have "hd (map fps (playback_times prog)) = fps a"
      by (simp add: list_all_iff)
    moreover from all assms(2) have "hd (map fps (playback_times prog)) = fps b"
      by (simp add: list_all_iff)
    ultimately show False using assms(3) by simp
  qed
  then show ?thesis by (simp add: prog_frames_def Let_def)
qed

lemma prog_loop_first_error:
  assumes "\<forall>p\<in>set pre. \<not> isl (prog_frames FRAMERATE p)"
    and "prog_frames FRAMERATE prog = Inl e"
  shows "prog_loop FRAMERATE fr acc (pre @ prog # post) = Inl e"
  using assms
proof (induction pre arbitrary: fr acc)
  case Nil
  then show ?case by simp
next
  case (Cons p pre)
  from Cons.prems(1) obtain fr1 cf where "prog_frames FRAMERATE p = Inr (fr1, cf)"
    by (cases "prog_frames FRAMERATE p") auto
  with Cons show ?case by simp
qed

lemma prog_loop_some_error:
  assumes "prog \<in> set progs" and "isl (prog_frames FRAMERATE prog)"
  shows "isl (prog_loop FRAMERATE fr acc progs)"
  using assms
proof (induction progs arbitrary: fr acc)
  case Nil
  then show ?case by simp
next
  case (Cons p progs)
  show ?case
  proof (cases "prog_frames FRAMERATE p")
    case (Inl e)
    then show ?thesis by simp
  next
    case (Inr r)
    with Cons.prems have "prog \<in> set progs" by auto
    from Cons.IH [OF this Cons.prems(2)] Inr show ?thesis
      by (cases r) simp
  qed
qed

text \<open>
  C7 says that a program chain whose playback times carry two distinct frame-rate
  codes makes chapter extraction raise the variable-frame-rate error.  The loop walks
  the chains in order and its first exception ends it: here the chain before the
  mixed one has no playback time, \<open>dvd_fps_s[0]\<close> raises, and the mixed chain is
  never looked at.
\<close>

theorem vfr_after_empty_chain_counterexample:
  "get_ifo_info dvd_FRAMERATE
     [\<lparr>stem = ''VTS_01_0'',
       program_chains = [\<lparr>playback_times = []\<rparr>, \<lparr>playback_times = [pb 1 10, pb 3 5]\<rparr>]\<rparr>]
   = Inl IndexError"
  by (simp add: get_ifo_info_def collect_chains_def prog_frames_def)

text \<open>
  C7, amended: when a program chain that the loop walks has two playback times with
  different frame-rate codes, \<open>get_ifo_info\<close> raises and yields no ChapterBoundaries;
  and when every chain walked before it passes the loop body without an exception,
  what is raised is \<open>ValueError('IsoFile: No VFR allowed!')\<close>.
\<close>

theorem vfr_chain_raises:
  assumes "prog \<in> set (collect_chains mount_glob)"
    and "a \<in> set (playback_times prog)" and "b \<in> set (playback_times prog)"
    and "fps a \<noteq> fps b"
  shows "isl (get_ifo_info FRAMERATE mount_glob)
       \<and> (\<forall>pre post. collect_chains mount_glob = pre @ prog # post
              \<and> (\<forall>p\<in>set pre. \<not> isl (prog_frames FRAMERATE p))
            \<longrightarrow> get_ifo_info FRAMERATE mount_glob = Inl (ValueError ''IsoFile: No VFR allowed!''))"
proof -
  have vfr: "prog_frames FRAMERATE prog = Inl (ValueError ''IsoFile: No VFR allowed!'')"
    using assms(2-4) by (rule prog_frames_vfr)
  then have "isl (prog_loop FRAMERATE (Fract 30000 1001) [] (collect_chains mount_glob))"
    using prog_loop_some_error [OF assms(1)] by simp
  then have one: "isl (get_ifo_info FRAMERATE mount_glob)"
    by (auto simp: get_ifo_info_def Let_def split: sum.splits)
  have two: "get_ifo_info FRAMERATE mount_glob = Inl (ValueError ''IsoFile: No VFR allowed!'')"
    if "collect_chains mount_glob = pre @ prog # post"
      and "\<forall>p\<in>set pre. \<not> isl (prog_frames FRAMERATE p)" for pre post
    using prog_loop_first_error [OF that(2) vfr] that(1)
    by (simp add: get_ifo_info_def Let_def)
  from one two show ?thesis by blast
qed

theorem vfr_chain_raises_witness:
  "get_ifo_info dvd_FRAMERATE
     [\<lparr>stem = ''VTS_01_0'',
       program_chains = [\<lparr>playback_times = [pb 3 10]\<rparr>, \<lparr>playback_times = [pb 1 10, pb 3 5]\<rparr>]\<rparr>]
   = Inl (ValueError ''IsoFile: No VFR allowed!'')"
proof -
  let ?good = "\<lparr>playback_times = [pb 3 10]\<rparr>"
  let ?vfr = "\<lparr>playback_times = [pb 1 10, pb 3 5]\<rparr>"
  let ?glob = "[\<lparr>stem = ''VTS_01_0'', program_chains = [?good, ?vfr]\<rparr>]"
  have cc: "collect_chains ?glob = [?good] @ ?vfr # []"
    by (simp add: collect_chains_def)
  have ok: "\<forall>p\<in>set [?good]. \<not> isl (prog_frames dvd_FRAMERATE p)"
    by (simp add: prog_frames_def dvd_FRAMERATE_def pb_def)
  have "?vfr \<in> set (collect_chains ?glob)" by (simp add: collect_chains_def)
  moreover have "pb 1 10 \<in> set (playback_times ?vfr)" "pb 3 5 \<in> set (playback_times ?vfr)"
    by simp_all
  moreover have "fps (pb 1 10) \<noteq> fps (pb 3 5)" by (simp add: pb_def)
  ultimately have "\<forall>pre post. collect_chains ?glob = pre @ ?vfr # post
              \<and> (\<forall>p\<in>set pre. \<not> isl (prog_frames dvd_FRAMERATE p))
            \<longrightarrow> get_ifo_info dvd_FRAMERATE ?glob = Inl (ValueError ''IsoFile: No VFR allowed!'')"
    using vfr_chain_raises [of ?vfr ?glob "pb 1 10" "pb 3 5" dvd_FRAMERATE] by blast
  with cc ok show ?thesis by blast
qed

section \<open>The boundaries of a title start at 0 and never decrease\<close>

lemma accumulate_from_ge:
  "\<forall>x\<in>set xs. 0 \<le> x \<Longrightarrow> y \<in> set (accumulate_from a xs) \<Longrightarrow> a \<le> y"
proof (induction xs arbitrary: a)
  case Nil
  then show ?case by simp
next
  case (Cons x xs)
  from Cons.prems have "y = a + x \<or> y \<in> set (accumulate_from (a + x) xs)" by simp
  then show ?case
  proof
    assume "y = a + x" with Cons.prems show ?thesis by simp
  next
    assume "y \<in> set (accumulate_from (a + x) xs)"
    with Cons.IH [of "a + x"] Cons.prems have "a + x \<le> y" by simp
    with Cons.prems show ?thesis by simp
  qed
qed

lemma accumulate_from_sorted:
  "\<forall>x\<in>set xs. 0 \<le> x \<Longrightarrow> sorted (accumulate_from a xs)"
proof (induction xs arbitrary: a)
  case Nil
  then show ?case by simp
next
  case (Cons x xs)
  then show ?case using accumulate_from_ge [of xs _ "a + x"] by auto
qed

lemma prog_frames_Inr:
  assumes "prog_frames FRAMERATE prog = Inr (fr, cf)"
  shows "\<exists>raw_fps. 0 \<le> raw_fps \<and>
           cf = 0 # map (\<lambda>pb_time. frames pb_time
                  + (hours pb_time * 3600 + minutes pb_time * 60 + seconds pb_time) * raw_fps)
                (playback_times prog)"
proof (cases "fst (quotient_of fr) = 30000")
  case True
  with assms have "cf = 0 # map (\<lambda>pb_time. frames pb_time
                  + (hours pb_time * 3600 + minutes pb_time * 60 + seconds pb_time) * 30)
                (playback_times prog)"
    by (auto simp: prog_frames_def Let_def split: if_splits list.splits option.splits)
  then show ?thesis by (intro exI [of _ 30]) simp
next
  case False
  with assms have "cf = 0 # map (\<lambda>pb_time. frames pb_time
                  + (hours pb_time * 3600 + minutes pb_time * 60 + seconds pb_time) * 25)
                (playback_times prog)"
    by (auto simp: prog_frames_def Let_def split: if_splits list.splits option.splits)
  then show ?thesis by (intro exI [of _ 25]) simp
qed

lemma prog_frames_sorted:
  assumes "prog_frames FRAMERATE prog = Inr (fr, cf)"
    and "\<forall>pb_time\<in>set (playback_times prog).
           0 \<le> hours pb_time \<and> 0 \<le> minutes pb_time \<and> 0 \<le> seconds pb_time \<and> 0 \<le> frames pb_time"
  shows "hd (accumulate cf) = 0 \<and> sorted (accumulate cf)"
proof -
  from prog_frames_Inr [OF assms(1)] obtain raw_fps where raw: "0 \<le> raw_fps"
    and cf: "cf = 0 # map (\<lambda>pb_time. frames pb_time
                  + (hours pb_time * 3600 + minutes pb_time * 60 + seconds pb_time) * raw_fps)
                (playback_times prog)"
    by blast
  have nonneg: "\<forall>x\<in>set (tl cf). 0 \<le> x"
    using assms(2) raw by (auto simp: cf)
  have "sorted (accumulate_from 0 (tl cf))"
    using nonneg by (rule accumulate_from_sorted)
  moreover have "\<forall>y\<in>set (accumulate_from 0 (tl cf)). 0 \<le> y"
    using accumulate_from_ge [OF nonneg] by blast
  ultimately show ?thesis by (simp add: cf)
qed

lemma prog_loop_Inr:
  "prog_loop FRAMERATE fr acc progs = Inr (fr', out) \<Longrightarrow>
     length out = length acc + length progs \<and> take (length acc) out = acc \<and>
     (\<forall>k<length progs. \<exists>fr''. prog_frames FRAMERATE (progs ! k) = Inr (fr'', out ! (length acc + k)))"
proof (induction progs arbitrary: fr acc)
  case Nil
  then show ?case by simp
next
  case (Cons prog progs)
  from Cons.prems obtain fr1 cf where pf: "prog_frames FRAMERATE prog = Inr (fr1, cf)"
    and rest: "prog_loop FRAMERATE fr1 (acc @ [cf]) progs = Inr (fr', out)"
    by (auto split: sum.splits)
  from Cons.IH [OF rest] have len: "length out = length acc + 1 + length progs"
    and tk: "take (length acc + 1) out = acc @ [cf]"
    and nth: "\<forall>k<length progs. \<exists>fr''. prog_frames FRAMERATE (progs ! k) = Inr (fr'', out ! (length acc + 1 + k))"
    by simp_all
  from tk have "take (length acc) (take (length acc + 1) out) = take (length acc) (acc @ [cf])"
    by simp
  then have tk': "take (length acc) out = acc" by simp
  from tk have "(take (length acc + 1) out) ! length acc = (acc @ [cf]) ! length acc" by simp
  then have keep: "out ! length acc = cf" by simp
  have "\<exists>fr''. prog_frames FRAMERATE ((prog # progs) ! k) = Inr (fr'', out ! (length acc + k))"
    if "k < length (prog # progs)" for k
  proof (cases k)
    case 0
    with pf keep show ?thesis by simp
  next
    case (Suc j)
    with that nth show ?thesis by simp
  qed
  with len tk' show ?case by simp
qed

text \<open>
  C8: when chapter extraction returns, the boundary list of every walked program chain
  whose playback times have non-negative hours, minutes, seconds and frames (the
  offsets with a 0 in front, then their running sums) starts at 0 and is
  non-decreasing.  The lists are in the order of the chains.
\<close>

theorem chapter_boundaries_sorted:
  assumes "get_ifo_info FRAMERATE mount_glob = Inr info"
    and "k < length (collect_chains mount_glob)"
    and "\<forall>pb_time\<in>set (playback_times (collect_chains mount_glob ! k)).
           0 \<le> hours pb_time \<and> 0 \<le> minutes pb_time \<and> 0 \<le> seconds pb_time \<and> 0 \<le> frames pb_time"
  shows "length (chapters info) = length (collect_chains mount_glob)
       \<and> hd (chapters info ! k) = 0 \<and> sorted (chapters info ! k)"
proof -
  from assms(1) obtain fr sc where
    loop: "prog_loop FRAMERATE (Fract 30000 1001) [] (collect_chains mount_glob) = Inr (fr, sc)"
    and info: "chapters info = map accumulate sc"
    by (auto simp: get_ifo_info_def Let_def split: sum.splits)
  from prog_loop_Inr [OF loop] assms(2) obtain fr'' where
    len: "length sc = length (collect_chains mount_glob)"
    and pf: "prog_frames FRAMERATE (collect_chains mount_glob ! k) = Inr (fr'', sc ! k)"
    by auto
  from prog_frames_sorted [OF pf assms(3)] len assms(2) show ?thesis
    by (simp add: info)
qed

theorem chapter_boundaries_sorted_witness:
  "get_ifo_info dvd_FRAMERATE
     [\<lparr>stem = ''VTS_01_0'', program_chains = [\<lparr>playback_times = [pb 3 10, pb 3 5]\<rparr>]\<rparr>]
   = Inr \<lparr>chapters = [[0, 300, 450]], ifo_fps = Fract 30000 1001, is_multiple_IFOs = False\<rparr>
   \<and> hd ([[0, 300, 450]] ! 0) = (0::int) \<and> sorted ([[0, 300, 450 :: int]] ! 0)"
proof -
  let ?glob = "[\<lparr>stem = ''VTS_01_0'', program_chains = [\<lparr>playback_times = [pb 3 10, pb 3 5]\<rparr>]\<rparr>]"
  let ?info = "\<lparr>chapters = [[0, 300, 450]], ifo_fps = Fract 30000 1001, is_multiple_IFOs = False\<rparr>"
  have run: "get_ifo_info dvd_FRAMERATE ?glob = Inr ?info"
    by (simp add: get_ifo_info_def collect_chains_def prog_frames_def dvd_FRAMERATE_def pb_def
        quotient_ntsc)
  have k: "0 < length (collect_chains ?glob)"
    by (simp add: collect_chains_def)
  have nonneg: "\<forall>pb_time\<in>set (playback_times (collect_chains ?glob ! 0)).
           0 \<le> hours pb_time \<and> 0 \<le> minutes pb_time \<and> 0 \<le> seconds pb_time \<and> 0 \<le> frames pb_time"
    by (simp add: collect_chains_def pb_def)
  from chapter_boundaries_sorted [OF run k nonneg] run show ?thesis by simp
qed

section \<open>Overflow without strict mode\<close>

lemma py_index_last: "xs \<noteq> [] \<Longrightarrow> py_index xs (- 1) = Inr (last xs)"
proof (cases xs)
  case Nil
  assume "xs \<noteq> []"
  with Nil show ?thesis by simp
next
  case (Cons a list)
  have "nat (int (length (a # list)) + - 1) = length list" by simp
  moreover have "last (a # list) = (a # list) ! length list"
    by (simp add: last_conv_nth)
  ultimately show ?thesis using Cons by (simp add: py_index_def)
qed

lemma last_frames_nonempty:
  "last_frames chs = Inr ls \<Longrightarrow> c \<in> set chs \<Longrightarrow> c \<noteq> []"
  by (induction chs arbitrary: ls) (auto simp: py_index_def split: sum.splits if_splits)

lemma join_loop_nonempty:
  "join_loop j cs = Inr j' \<Longrightarrow> j \<noteq> [] \<Longrightarrow> j' \<noteq> []"
  by (induction cs arbitrary: j) (auto simp: Let_def split: if_splits)

lemma split_and_join_nonempty:
  assumes "split_and_join clip0 chs menu = Inr (clips, sc, jclip, jchapts)"
  shows "jchapts \<noteq> []"
proof -
  from assms obtain sc0 where sp: "split_chapters_clips clip0 chs menu = Inr (sc0, clips)"
    and gj: "gen_joined_chapts sc0 = Inr (sc, jchapts)"
    by (auto simp: split_and_join_def split: sum.splits)
  from sp obtain ls where lf: "last_frames chs = Inr ls"
    and sc0: "sc0 = chs @ [[0, menu]] \<or> sc0 = chs"
    by (auto simp: split_chapters_clips_def Let_def split: sum.splits if_splits)
  from gj obtain c cs where c: "sc0 = c # cs" and jl: "join_loop c cs = Inr jchapts"
    by (auto simp: gen_joined_chapts_def split: list.splits sum.splits)
  from sc0 c have "c = [0, menu] \<or> c \<in> set chs"
    by (cases chs) auto
  with lf have "c \<noteq> []" using last_frames_nonempty by blast
  with jl show ?thesis by (rule join_loop_nonempty)
qed

text \<open>
  C9: without \<open>safe_indices\<close>, when the last joined boundary exceeds the number of
  decoded frames, \<open>split_titles\<close> prints the warning and nothing else happens: the
  split clips, split chapters, joined clip and joined chapters it returns are the
  values the first split and join computed.
\<close>

theorem warning_only:
  assumes "\<not> safe_indices self"
    and "get_dvd_menu_length (index_info self) = Inr dvd_menu_length"
    and "split_and_join (clip self) (chapters (ifo_info self)) dvd_menu_length
           = Inr (clips, sc, jclip, jchapts)"
    and "last jchapts > int (length (clip self))"
  shows "split_titles self =
           Inr (self\<lparr>ifo_info := (ifo_info self)\<lparr>chapters := sc\<rparr>,
                     split_clips := Some clips, split_chapters := Some sc,
                     joined_clip := Some jclip, joined_chapters := Some jchapts,
                     stdout := stdout self @ [broken_chapters_warning]\<rparr>)"
proof -
  from split_and_join_nonempty [OF assms(3)] have "jchapts \<noteq> []" .
  then have "py_index jchapts (- 1) = Inr (last jchapts)"
    by (rule py_index_last)
  with assms show ?thesis
    by (simp add: split_titles_def Let_def)
qed


theorem warning_only_witness:
  "\<not> safe_indices (disc False [0..<250::nat] [[0, 100, 300]])
   \<and> get_dvd_menu_length (index_info (disc False [0..<250::nat] [[0, 100, 300]])) = Inr 0
   \<and> split_and_join [0..<250::nat] [[0, 100, 300]] 0
        = Inr ([[0..<250]], [[0, 100, 300]], [0..<250], [0, 100, 300])
   \<and> last [0, 100, 300] > int (length [0..<250::nat])
   \<and> split_titles (disc False [0..<250::nat] [[0, 100, 300]]) =
        Inr ((disc False [0..<250] [[0, 100, 300]])
             \<lparr>split_clips := Some [[0..<250]], split_chapters := Some [[0, 100, 300]],
              joined_clip := Some [0..<250], joined_chapters := Some [0, 100, 300],
              stdout := [broken_chapters_warning]\<rparr>)"
proof -
  let ?d = "disc False [0..<250::nat] [[0, 100, 300]]"
  have a: "\<not> safe_indices ?d" by (simp add: disc_def)
  have b: "get_dvd_menu_length (index_info ?d) = Inr 0"
    by (simp add: disc_def get_dvd_menu_length_def)
  have c: "split_and_join (clip ?d) (chapters (ifo_info ?d)) 0
        = Inr ([[0..<250]], [[0, 100, 300]], [0..<250], [0, 100, 300])"
    by (simp add: split_defs)
  have d: "last [0, 100, 300] > int (length (clip ?d))" by (simp add: disc_def)
  from warning_only [OF a b c d] a b c d show ?thesis by (simp add: disc_def)
qed

section \<open>A query without chapters\<close>

text \<open>
  C10: with no chapter query, \<open>get_title\<close> returns the selected clip unsliced: the
  joined clip when no title index is given, the clip of the title at the index
  otherwise.  \<open>self1\<close> is the object once the titles are split.
\<close>

theorem no_chapters_whole_clip:
  assumes "ensure_split self = Inr self1"
    and "joined_chapters self1 = Some jchapts" and "joined_clip self1 = Some jclip"
    and "split_chapters self1 = Some sc" and "split_clips self1 = Some clips"
    and "py_index sc ci = Inr ranges" and "py_index clips ci = Inr c"
  shows "get_title self None NoChapters = Inr (Clip jclip)
       \<and> get_title self (Some ci) NoChapters = Inr (Clip c)"
  using assms by (simp add: select_title_def)

theorem no_chapters_whole_clip_witness:
  "get_title (disc False [0..<300::nat] [[0, 100, 200, 300]]) None NoChapters
     = Inr (Clip [0..<300])
   \<and> get_title (disc False [0..<300::nat] [[0, 100, 200, 300]]) (Some 0) NoChapters
     = Inr (Clip [0..<300])"
proof -
  let ?d = "disc False [0..<300::nat] [[0, 100, 200, 300]]"
  let ?s = "?d\<lparr>split_clips := Some [[0..<300]], split_chapters := Some [[0, 100, 200, 300]],
           joined_clip := Some [0..<300], joined_chapters := Some [0, 100, 200, 300]\<rparr>"
  have a: "ensure_split ?d = Inr ?s"
    by (simp add: ensure_split_def split_four_boundaries) (simp add: disc_def)
  have b: "py_index [[0, 100, 200, 300 :: int]] 0 = Inr [0, 100, 200, 300]"
    "py_index [[0..<300::nat]] 0 = Inr [0..<300]"
    by (simp_all add: py_index_def)
  show ?thesis
    using no_chapters_whole_clip [OF a _ _ _ _ b] by simp
qed

section \<open>The correction pass\<close>

lemma walk_title_all:
  "\<forall>b\<in>set t. b + offset < num_frames \<Longrightarrow> walk_title num_frames offset t = (t, False)"
  by (induction t) simp_all

lemma walk_title_break:
  "j < length t \<Longrightarrow> \<forall>j'<j. t ! j' + offset < num_frames \<Longrightarrow> num_frames \<le> t ! j + offset
   \<Longrightarrow> walk_title num_frames offset t = (take j t, True)"
proof (induction t arbitrary: j)
  case Nil
  then show ?case by simp
next
  case (Cons b bs)
  show ?case
  proof (cases j)
    case 0
    with Cons.prems show ?thesis by simp
  next
    case (Suc j0)
    from Cons.prems(2) Suc have hd: "b + offset < num_frames" by auto
    from Cons.prems(2) Suc have "\<forall>j'<j0. bs ! j' + offset < num_frames" by auto
    moreover from Cons.prems Suc have "j0 < length bs" "num_frames \<le> bs ! j0 + offset"
      by simp_all
    ultimately have "walk_title num_frames offset bs = (take j0 bs, True)"
      using Cons.IH by blast
    with hd Suc show ?thesis by simp
  qed
qed

lemma fold_update_range:
  "a \<le> b \<Longrightarrow> b \<le> length xs \<Longrightarrow>
     fold (\<lambda>k acc. acc[k := v]) [a..<b] xs = take a xs @ replicate (b - a) v @ drop b xs"
proof (induction "b - a" arbitrary: a xs)
  case 0
  then show ?case by simp
next
  case (Suc n)
  then have lt: "a < b" and n: "n = b - Suc a" by simp_all
  from lt have upt: "[a..<b] = a # [Suc a..<b]" by (rule upt_conv_Cons)
  have "fold (\<lambda>k acc. acc[k := v]) [Suc a..<b] (xs[a := v])
          = take (Suc a) (xs[a := v]) @ replicate (b - Suc a) v @ drop b (xs[a := v])"
    using Suc.hyps(1) [OF n] lt Suc.prems by simp
  moreover have "take (Suc a) (xs[a := v]) = take a xs @ [v]"
    using lt Suc.prems by (simp add: take_Suc_conv_app_nth)
  moreover have "drop b (xs[a := v]) = drop b xs" using lt by simp
  moreover have "replicate (b - a) v = v # replicate (b - Suc a) v"
    using lt by (simp add: Suc_diff_Suc flip: replicate_Suc)
  ultimately show ?case by (simp add: upt)
qed


lemma corr_loop_skip:
  assumes "k \<le> length sc"
    and "\<forall>m<k. sc ! m \<noteq> [] \<and> (\<forall>b\<in>set (sc ! m). b + sum_list (map last (take m sc)) < num_frames)"
  shows "corr_loop num_frames menu sc 0 0 sc (replicate (length sc) [])
       = corr_loop num_frames menu sc k (sum_list (map last (take k sc))) (drop k sc)
           (take k sc @ replicate (length sc - k) [])"
  using assms
proof (induction k)
  case 0
  then show ?case by simp
next
  case (Suc k)
  then have k: "k < length sc" by simp
  from Suc have IH: "corr_loop num_frames menu sc 0 0 sc (replicate (length sc) [])
       = corr_loop num_frames menu sc k (sum_list (map last (take k sc))) (drop k sc)
           (take k sc @ replicate (length sc - k) [])"
    by simp
  from Suc.prems(2) have ne: "sc ! k \<noteq> []"
    and ok: "\<forall>b\<in>set (sc ! k). b + sum_list (map last (take k sc)) < num_frames"
    by simp_all
  have dr: "drop k sc = sc ! k # drop (Suc k) sc"
    using k by (simp add: Cons_nth_drop_Suc)
  have rp: "replicate (length sc - k) ([]::int list) = [] # replicate (length sc - Suc k) []"
    using k by (simp add: Suc_diff_Suc flip: replicate_Suc)
  have upd: "(take k sc @ replicate (length sc - k) [])[k := sc ! k]
           = take (Suc k) sc @ replicate (length sc - Suc k) []"
    using k by (simp add: rp list_update_append take_Suc_conv_app_nth)
  have sm: "sum_list (map last (take (Suc k) sc)) = sum_list (map last (take k sc)) + last (sc ! k)"
    using k by (simp add: take_Suc_conv_app_nth)
  show ?case
    unfolding IH dr
    by (simp add: walk_title_all [OF ok] ne upd sm)
qed

text \<open>
  The loop on its own, for any list of entries.  Let the first boundary with
  \<open>offset + boundary \<ge> num_frames\<close> be boundary \<open>j\<close> of entry \<open>i\<close> (a title, not the menu
  entry), the offset being the sum of the last boundaries of the entries before \<open>i\<close>.
  Then the entries before \<open>i\<close> are kept, entry \<open>i\<close> keeps its boundaries before \<open>j\<close> and
  gets \<open>num_frames - dvd_menu_length - len(split_chapters) + i + 2\<close> in place of
  boundary \<open>j\<close>, every later title becomes \<open>[0, 1]\<close>, and with a menu the last entry
  is the menu entry as it was.  So the loop is written for entries that each hold the
  boundaries of one title.
\<close>

lemma walk_on_given_entries:
  assumes "i < length sc - (if 0 < dvd_menu_length then 1 else 0)"
    and "0 \<le> dvd_menu_length"
    and "\<forall>k<i. sc ! k \<noteq> []
           \<and> (\<forall>b\<in>set (sc ! k). b + sum_list (map last (take k sc)) < num_frames)"
    and "j < length (sc ! i)"
    and "\<forall>j'<j. sc ! i ! j' + sum_list (map last (take i sc)) < num_frames"
    and "num_frames \<le> sc ! i ! j + sum_list (map last (take i sc))"
  shows "correct_chapters num_frames dvd_menu_length sc =
           Inr (take i sc
                @ [take j (sc ! i) @ [num_frames - dvd_menu_length - int (length sc) + int i + 2]]
                @ replicate (length sc - (if 0 < dvd_menu_length then 1 else 0) - Suc i) [0, 1]
                @ (if dvd_menu_length \<noteq> 0 then [last sc] else []))"
proof -
  let ?m = "if 0 < dvd_menu_length then 1 else 0 :: nat"
  let ?X = "take j (sc ! i) @ [num_frames - dvd_menu_length - int (length sc) + int i + 2]"
  let ?off = "sum_list (map last (take i sc))"
  from assms(1) have i: "i < length sc" and im: "Suc i \<le> length sc - ?m"
    by (simp_all split: if_splits)
  have dr: "drop i sc = sc ! i # drop (Suc i) sc"
    using i by (simp add: Cons_nth_drop_Suc)
  have rp: "replicate (length sc - i) ([]::int list) = [] # replicate (length sc - Suc i) []"
    using i by (simp add: Suc_diff_Suc flip: replicate_Suc)
  let ?new1 = "take i sc @ ?X # replicate (length sc - Suc i) []"
  have new1: "(take i sc @ replicate (length sc - i) [])[i := ?X] = ?new1"
    using i by (simp add: rp list_update_append)
  have len1: "length ?new1 = length sc" using i by simp
  have fold: "fold (\<lambda>k acc. acc[k := [0, 1]]) [Suc i ..< length sc - ?m] ?new1
        = take (Suc i) ?new1 @ replicate (length sc - ?m - Suc i) [0, 1] @ drop (length sc - ?m) ?new1"
    using im len1 by (intro fold_update_range) simp_all
  have tk: "take (Suc i) ?new1 = take i sc @ [?X]" using i by simp
  have "drop (length sc - ?m) ((take i sc @ [?X]) @ replicate (length sc - Suc i) [])
          = drop (length sc - ?m - Suc i) (replicate (length sc - Suc i) ([]::int list))"
    using i im by (simp del: replicate.simps append_assoc add: min_def)
  also have "\<dots> = replicate ?m []"
  proof -
    have "length sc - Suc i - (length sc - ?m - Suc i) = ?m" using im by (simp split: if_splits)
    then show ?thesis by (simp only: drop_replicate)
  qed
  finally have dp: "drop (length sc - ?m) ?new1 = replicate ?m []" by simp
  let ?new2 = "take i sc @ [?X] @ replicate (length sc - ?m - Suc i) [0, 1] @ replicate ?m []"
  have new2: "fold (\<lambda>k acc. acc[k := [0, 1]]) [Suc i ..< length sc - ?m] ?new1 = ?new2"
    by (simp only: fold tk dp append_assoc)
  have fin: "(if dvd_menu_length \<noteq> 0 then ?new2[length sc - 1 := last sc] else ?new2)
      = take i sc @ [?X] @ replicate (length sc - ?m - Suc i) [0, 1]
          @ (if dvd_menu_length \<noteq> 0 then [last sc] else [])"
  proof (cases "dvd_menu_length = 0")
    case True
    then show ?thesis by simp
  next
    case False
    with assms(2) have pos: "0 < dvd_menu_length" by simp
    define P where "P = take i sc @ [?X] @ replicate (length sc - 1 - Suc i) [0, 1]"
    have lenP: "length P = length sc - 1"
      using i im pos by (simp add: P_def)
    have "(P @ [[]])[length P := last sc] = P @ [last sc]"
      by (rule list_update_length)
    then have "(P @ [[]])[length sc - 1 := last sc] = P @ [last sc]"
      by (simp only: lenP)
    then show ?thesis using pos by (simp add: P_def)
  qed
  have "correct_chapters num_frames dvd_menu_length sc
      = corr_loop num_frames dvd_menu_length sc i ?off (sc ! i # drop (Suc i) sc)
          (take i sc @ replicate (length sc - i) [])"
    unfolding correct_chapters_def
    using corr_loop_skip [of i sc num_frames dvd_menu_length] i assms(3) dr by simp
  also have "\<dots> = Inr (if dvd_menu_length \<noteq> 0 then ?new2[length sc - 1 := last sc] else ?new2)"
  proof (cases "dvd_menu_length = 0")
    case True
    with new2 have "fold (\<lambda>k acc. acc[k := [0, 1]]) [Suc i ..< length sc] ?new1
        = take i sc @ [?X] @ replicate (length sc - Suc i) [0, 1]"
      by simp
    with True show ?thesis
      using walk_title_break [OF assms(4,5,6)] new1 by (simp add: Let_def)
  next
    case False
    with assms(2) have pos: "0 < dvd_menu_length" by simp
    with new2 have "fold (\<lambda>k acc. acc[k := [0, 1]]) [Suc i ..< length sc - 1] ?new1
        = take i sc @ [?X] @ replicate (length sc - 1 - Suc i) [0, 1] @ [[]]"
      by simp
    with pos show ?thesis
      using walk_title_break [OF assms(4,5,6)] new1 by (simp add: Let_def)
  qed
  finally show ?thesis using fin by simp
qed

text \<open>
  In \<open>split_titles\<close> the entries walked are the split chapters as the join left them,
  and \<open>__gen_joined_chapts\<close> has extended their first entry in place: it is the joined
  list.  Its last boundary is the one that exceeds the number of frames, so the
  overflow is always found in entry 0, at offset 0: the offset and the \<open>+ i\<close> of the
  clamp never take effect, and what is cut is the joined list.
\<close>

lemma joined_is_first_entry:
  assumes "split_and_join clip0 chs dvd_menu_length = Inr (clips, sc, jclip, jchapts)"
  shows "sc \<noteq> [] \<and> sc ! 0 = jchapts"
  using assms
  by (auto simp: split_and_join_def gen_joined_chapts_def split: sum.splits list.splits)

lemma first_overflow_index:
  "xs \<noteq> [] \<Longrightarrow> (num_frames::int) \<le> last xs
   \<Longrightarrow> \<exists>j<length xs. (\<forall>j'<j. xs ! j' < num_frames) \<and> num_frames \<le> xs ! j"
proof (induction xs)
  case Nil
  then show ?case by simp
next
  case (Cons x xs)
  show ?case
  proof (cases "num_frames \<le> x")
    case True
    then have "0 < length (x # xs) \<and> (\<forall>j'<0. (x # xs) ! j' < num_frames)
                 \<and> num_frames \<le> (x # xs) ! 0"
      by simp
    then show ?thesis by blast
  next
    case False
    with Cons.prems have ne: "xs \<noteq> []" and "num_frames \<le> last xs"
      by (auto split: if_splits)
    with Cons.IH obtain j where j: "j < length xs" "\<forall>j'<j. xs ! j' < num_frames"
      "num_frames \<le> xs ! j"
      by blast
    have "\<forall>j'<Suc j. (x # xs) ! j' < num_frames"
    proof (intro allI impI)
      fix j' assume "j' < Suc j"
      with j(2) False show "(x # xs) ! j' < num_frames" by (cases j') auto
    qed
    with j(1,3) have "Suc j < length (x # xs) \<and> (\<forall>j'<Suc j. (x # xs) ! j' < num_frames)
                 \<and> num_frames \<le> (x # xs) ! Suc j"
      by simp
    then show ?thesis by blast
  qed
qed

lemma strict_correction_in_first_entry:
  assumes "split_and_join clip0 chs dvd_menu_length = Inr (clips, sc, jclip, jchapts)"
    and "chs \<noteq> []" and "0 \<le> dvd_menu_length" and "num_frames < last jchapts"
  shows "\<exists>j<length jchapts. (\<forall>j'<j. jchapts ! j' < num_frames) \<and> num_frames \<le> jchapts ! j
           \<and> correct_chapters num_frames dvd_menu_length sc =
               Inr ([take j jchapts @ [num_frames - dvd_menu_length - int (length sc) + 2]]
                    @ replicate (length sc - (if 0 < dvd_menu_length then 1 else 0) - 1) [0, 1]
                    @ (if dvd_menu_length \<noteq> 0 then [last sc] else []))"
proof -
  from assms(1) obtain sc0 where sp: "split_chapters_clips clip0 chs dvd_menu_length = Inr (sc0, clips)"
    and gj: "gen_joined_chapts sc0 = Inr (sc, jchapts)"
    by (auto simp: split_and_join_def split: sum.splits)
  from sp have sc0: "sc0 = (if dvd_menu_length \<noteq> 0 then chs @ [[0, dvd_menu_length]] else chs)"
    by (auto simp: split_chapters_clips_def Let_def split: sum.splits if_splits)
  from gj have len: "length sc = length sc0" and first: "sc ! 0 = jchapts"
    by (auto simp: gen_joined_chapts_def split: sum.splits list.splits)
  from sc0 len assms(2,3) have i: "0 < length sc - (if 0 < dvd_menu_length then 1 else 0)"
    by (cases chs) auto
  from split_and_join_nonempty [OF assms(1)] have ne: "jchapts \<noteq> []" .
  from first_overflow_index [OF ne, of num_frames] assms(4) obtain j where
    j: "j < length jchapts" "\<forall>j'<j. jchapts ! j' < num_frames" "num_frames \<le> jchapts ! j"
    by auto
  have "correct_chapters num_frames dvd_menu_length sc =
          Inr (take 0 sc
               @ [take j (sc ! 0) @ [num_frames - dvd_menu_length - int (length sc) + int 0 + 2]]
               @ replicate (length sc - (if 0 < dvd_menu_length then 1 else 0) - Suc 0) [0, 1]
               @ (if dvd_menu_length \<noteq> 0 then [last sc] else []))"
    using i assms(3) j by (intro walk_on_given_entries) (simp_all add: first)
  with j first show ?thesis by auto
qed

text \<open>
  Two titles \<open>[0, 100]\<close> and \<open>[0, 100, 200]\<close>, a menu of 20 frames and 270 decoded frames.
  On the titles' own boundaries the walk keeps title 0 and clamps boundary 200 of
  title 1, which the offset 100 carries to 300.
\<close>

lemma per_title_walk_run:
  "correct_chapters 270 20 [[0, 100], [0, 100, 200], [0, 20]]
     = Inr [[0, 100], [0, 100, 250], [0, 20]]"
  by (simp add: correct_chapters_def numeral_3_eq_3 numeral_2_eq_2)

text \<open>
  The first entry is read as the boundaries of title 0 elsewhere too: after a split
  of the titles \<open>[0, 100, 200]\<close> and \<open>[0, 50, 100]\<close> the last chapter of title 0 is
  looked up in the joined list and falls outside the clip of title 0.
\<close>

lemma title_zero_last_chapter_run:
  "get_title (disc False [0..<300::nat] [[0, 100, 200], [0, 50, 100]]) (Some 0) (Chapter (- 1))
     = Inl VSError"
  by (simp add: ensure_split_def select_title_def chapter_bounds_def slice_clip_def split_defs)

text \<open>
  C3 says that strict mode walks the titles with a running offset, replaces the
  first boundary \<open>b\<close> of title \<open>i\<close> with \<open>offset + b \<ge> trueTotal\<close> by
  \<open>trueTotal - menuLength - titleCount + i + 2\<close>, turns every later title into
  \<open>[0, 1]\<close> and keeps the menu entry.  The run of \<open>split_titles\<close> in strict mode on the
  two titles above: the first split and join leave \<open>[0, 100, 200, 300, 320]\<close> as
  entry 0, the correction cuts that list at 300 and appends
  \<open>270 - 20 - 3 + 0 + 2 = 249\<close>, and title 1, whose boundary overflows, becomes
  \<open>[0, 1]\<close>.  Title 0 is not kept and title 1 is not clamped.
\<close>

theorem strict_two_titles_run:
  "split_and_join [0..<270::nat] [[0, 100], [0, 100, 200]] 20
     = Inr ([[20..<120], [120..<270], [0..<20]],
            [[0, 100, 200, 300, 320], [0, 100, 200], [0, 20]],
            [20..<120] @ [120..<270] @ [0..<20], [0, 100, 200, 300, 320])
   \<and> correct_chapters 270 20 [[0, 100, 200, 300, 320], [0, 100, 200], [0, 20]]
     = Inr [[0, 100, 200, 249], [0, 1], [0, 20]]
   \<and> split_titles (menu_disc True [0..<270::nat] [[0, 100], [0, 100, 200]] 20) =
     Inr ((menu_disc True [0..<270] [[0, 100, 200, 300, 320], [0, 100, 200], [0, 20]] 20)
          \<lparr>split_clips := Some [[20..<269], [269..<270], [0..<20]],
           split_chapters := Some [[0, 100, 200, 249, 250, 270], [0, 1], [0, 20]],
           joined_clip := Some ([20..<269] @ [269..<270] @ [0..<20]),
           joined_chapters := Some [0, 100, 200, 249, 250, 270]\<rparr>)"
  by (simp add: split_defs menu_disc_def numeral_3_eq_3 numeral_2_eq_2)

section \<open>Lengths after splitting and joining\<close>

lemma last_frames_map:
  "last_frames chs = Inr ls \<Longrightarrow> ls = map last chs \<and> (\<forall>c\<in>set chs. c \<noteq> [])"
proof (induction chs arbitrary: ls)
  case Nil
  then show ?case by simp
next
  case (Cons c chs)
  from Cons.prems obtain l ls' where l: "py_index c (- 1) = Inr l"
    and rest: "last_frames chs = Inr ls'" and ls: "ls = l # ls'"
    by (auto split: sum.splits)
  from l have ne: "c \<noteq> []" by (auto simp: py_index_def)
  with l py_index_last [OF ne] have "l = last c" by simp
  with Cons.IH [OF rest] ne ls show ?case by simp
qed

lemma zip_butlast: "zip (butlast (a # xs)) xs = zip (a # xs) xs"
  by (induction xs arbitrary: a) simp_all

lemma vs_slice_length:
  assumes "vs_slice clp (Some s) (Some e) = Inr c" and "0 \<le> s" and "s \<le> e"
  shows "s < e \<and> s < int (length clp) \<and> int (length c) = min e (int (length clp)) - s"
  using assms
  by (auto simp: vs_slice_def slice_bound_def Let_def min_def split: if_splits)

lemma trim_titles_pos:
  assumes "trim_titles clp (zip (a # accumulate_from a ls) (accumulate_from a ls)) = Inr clips"
    and "0 \<le> a" and "\<forall>l\<in>set ls. 0 \<le> l"
  shows "\<forall>l\<in>set ls. 0 < l"
  using assms
proof (induction ls arbitrary: a clips)
  case Nil
  then show ?case by simp
next
  case (Cons l ls)
  from Cons.prems(1) obtain c cs where c: "vs_slice clp (Some a) (Some (a + l)) = Inr c"
    and rest: "trim_titles clp (zip ((a + l) # accumulate_from (a + l) ls)
                  (accumulate_from (a + l) ls)) = Inr cs"
    by (auto split: sum.splits)
  from Cons.prems have "0 \<le> l" by simp
  with vs_slice_length [OF c] Cons.prems(2) have "0 < l" by simp
  moreover have "\<forall>l\<in>set ls. 0 < l"
    using Cons.IH [OF rest] Cons.prems \<open>0 \<le> l\<close> by simp
  ultimately show ?case by simp
qed

lemma trim_titles_lengths:
  assumes "trim_titles clp (zip (a # accumulate_from a ls) (accumulate_from a ls)) = Inr clips"
    and "0 \<le> a" and "\<forall>l\<in>set ls. 0 \<le> l" and "a + sum_list ls \<le> int (length clp)"
  shows "map (\<lambda>c. int (length c)) clips = ls"
  using assms
proof (induction ls arbitrary: a clips)
  case Nil
  then show ?case by simp
next
  case (Cons l ls)
  from Cons.prems(1) obtain c cs where c: "vs_slice clp (Some a) (Some (a + l)) = Inr c"
    and rest: "trim_titles clp (zip ((a + l) # accumulate_from (a + l) ls)
                  (accumulate_from (a + l) ls)) = Inr cs"
    and clips: "clips = c # cs"
    by (auto split: sum.splits)
  from Cons.prems have l: "0 \<le> l" and ls: "\<forall>l\<in>set ls. 0 \<le> l" by simp_all
  then have "0 \<le> sum_list ls" by (simp add: sum_list_nonneg)
  with Cons.prems(4) have "a + l \<le> int (length clp)" by simp
  with vs_slice_length [OF c] Cons.prems(2) l have "int (length c) = l" by simp
  moreover have "map (\<lambda>c. int (length c)) cs = ls"
    using Cons.IH [OF rest] Cons.prems(2,4) l ls by (simp add: add.assoc)
  ultimately show ?case by (simp add: clips)
qed

lemma last_filter_keep:
  "xs \<noteq> [] \<Longrightarrow> P (last xs) \<Longrightarrow> last (filter P xs) = last xs"
proof (induction xs)
  case Nil
  then show ?case by simp
next
  case (Cons x xs)
  show ?case
  proof (cases "xs = []")
    case True
    with Cons.prems show ?thesis by simp
  next
    case False
    with Cons.prems have "P (last xs)" by simp
    with False have "last xs \<in> set (filter P xs)" by simp
    then have "filter P xs \<noteq> []" by (metis empty_iff empty_set)
    with Cons False \<open>P (last xs)\<close> show ?thesis by simp
  qed
qed

lemma join_loop_last:
  assumes "join_loop j cs = Inr j'" and "j \<noteq> []"
    and "\<forall>c\<in>set cs. c \<noteq> [] \<and> last c \<noteq> 0"
  shows "j' \<noteq> [] \<and> last j' = last j + sum_list (map last cs)"
  using assms
proof (induction cs arbitrary: j)
  case Nil
  then show ?case by simp
next
  case (Cons rrange rest)
  let ?nz = "filter (\<lambda>r. r \<noteq> 0) rrange"
  let ?j1 = "j @ map (\<lambda>r. r + last j) ?nz"
  from Cons.prems have ne: "rrange \<noteq> []" and nzl: "last rrange \<noteq> 0" by simp_all
  have "last rrange \<in> set ?nz" using last_in_set [OF ne] nzl by simp
  then have nz: "?nz \<noteq> []" by (metis empty_iff empty_set)
  have lnz: "last ?nz = last rrange" using ne nzl by (simp add: last_filter_keep)
  from Cons.prems(1,2) have step: "join_loop ?j1 rest = Inr j'"
    by (simp add: Let_def)
  have "last ?j1 = last rrange + last j"
    using nz lnz by (simp add: last_map)
  moreover have "j' \<noteq> [] \<and> last j' = last ?j1 + sum_list (map last rest)"
    using Cons.IH [OF step] Cons.prems(2,3) by simp
  ultimately show ?case by simp
qed

lemma int_sum_length:
  "int (sum_list (map length cs)) = sum_list (map (\<lambda>c. int (length c)) cs)"
  by (induction cs) simp_all

lemma length_foldl_append:
  "length (foldl (@) c cs) = length c + sum_list (map length cs)"
  by (induction cs arbitrary: c) simp_all


lemma vs_slice_from_length:
  assumes "vs_slice clp (Some m) None = Inr c" and "0 \<le> m"
  shows "m < int (length clp) \<and> int (length c) = int (length clp) - m"
  using assms
  by (auto simp: vs_slice_def slice_bound_def Let_def min_def split: if_splits)

lemma vs_slice_upto_length:
  assumes "vs_slice clp None (Some m) = Inr c" and "0 \<le> m" and "m \<le> int (length clp)"
  shows "int (length c) = m"
  using assms
  by (auto simp: vs_slice_def slice_bound_def Let_def min_def split: if_splits)

lemma joined_lengths:
  assumes "split_and_join clip0 chs dvd_menu_length = Inr (clips, sc, jclip, jchapts)"
    and "0 \<le> dvd_menu_length"
    and "\<forall>c\<in>set chs. 0 \<le> last c"
    and "last jchapts \<le> int (length clip0)"
  shows "length jclip = sum_list (map length clips) \<and> last jchapts = int (length jclip)"
proof -
  from assms(1) obtain sc0 where sp: "split_chapters_clips clip0 chs dvd_menu_length = Inr (sc0, clips)"
    and gc: "gen_joined_clip clips = Inr jclip"
    and gj: "gen_joined_chapts sc0 = Inr (sc, jchapts)"
    by (auto simp: split_and_join_def split: sum.splits)
  from sp obtain ls clp tclips where lf: "last_frames chs = Inr ls"
    and cl: "vs_slice clip0 (Some dvd_menu_length) None = Inr clp"
    and tr: "trim_titles clp (zip (butlast (0 # accumulate_from 0 ls)) (accumulate_from 0 ls)) = Inr tclips"
    and rest: "(dvd_menu_length \<noteq> 0 \<and> (\<exists>menu. vs_slice clip0 None (Some dvd_menu_length) = Inr menu
                  \<and> sc0 = chs @ [[0, dvd_menu_length]] \<and> clips = tclips @ [menu]))
             \<or> (dvd_menu_length = 0 \<and> sc0 = chs \<and> clips = tclips)"
    by (auto simp: split_chapters_clips_def Let_def split: sum.splits if_splits)
  from last_frames_map [OF lf] have ls: "ls = map last chs" and ne: "\<forall>c\<in>set chs. c \<noteq> []"
    by simp_all
  from tr have tr': "trim_titles clp (zip (0 # accumulate_from 0 ls) (accumulate_from 0 ls)) = Inr tclips"
    by (simp only: zip_butlast)
  have nonneg: "\<forall>l\<in>set ls. 0 \<le> l" using assms(3) ls by simp
  have pos: "\<forall>l\<in>set ls. 0 < l" using trim_titles_pos [OF tr' _ nonneg] by simp
  from vs_slice_from_length [OF cl assms(2)] have mlt: "dvd_menu_length < int (length clip0)"
    and lclp: "int (length clp) = int (length clip0) - dvd_menu_length"
    by simp_all
  \<comment> \<open>the joined boundaries end at the sum of the last boundaries\<close>
  have sc0_ok: "\<forall>c\<in>set sc0. c \<noteq> [] \<and> last c \<noteq> 0"
  proof -
    have "\<forall>c\<in>set chs. c \<noteq> [] \<and> last c \<noteq> 0" using ne pos ls by auto
    with rest show ?thesis by auto
  qed
  have sum0: "sum_list (map last sc0) = sum_list ls + dvd_menu_length"
    using rest ls by auto
  from gj obtain c cs where c: "sc0 = c # cs" and jl: "join_loop c cs = Inr jchapts"
    by (auto simp: gen_joined_chapts_def split: list.splits sum.splits)
  from sc0_ok c have "c \<noteq> []" "\<forall>c\<in>set cs. c \<noteq> [] \<and> last c \<noteq> 0" by simp_all
  from join_loop_last [OF jl this] c have lastj: "last jchapts = sum_list (map last sc0)"
    by simp
  \<comment> \<open>so the titles fit into the clip behind the menu\<close>
  from lastj sum0 assms(4) lclp have fit: "0 + sum_list ls \<le> int (length clp)" by simp
  from trim_titles_lengths [OF tr' _ nonneg fit] have tl: "map (\<lambda>c. int (length c)) tclips = ls"
    by simp
  have "sum_list (map (\<lambda>c. int (length c)) clips) = sum_list ls + dvd_menu_length"
  proof -
    from rest show ?thesis
    proof
      assume "dvd_menu_length \<noteq> 0 \<and> (\<exists>menu. vs_slice clip0 None (Some dvd_menu_length) = Inr menu
                  \<and> sc0 = chs @ [[0, dvd_menu_length]] \<and> clips = tclips @ [menu])"
      then obtain menu where m: "vs_slice clip0 None (Some dvd_menu_length) = Inr menu"
        and cm: "clips = tclips @ [menu]" by blast
      from vs_slice_upto_length [OF m assms(2)] mlt have "int (length menu) = dvd_menu_length"
        by simp
      with tl cm show ?thesis by simp
    next
      assume "dvd_menu_length = 0 \<and> sc0 = chs \<and> clips = tclips"
      with tl show ?thesis by simp
    qed
  qed
  then have total: "int (sum_list (map length clips)) = sum_list ls + dvd_menu_length"
    by (simp add: int_sum_length)
  from gc obtain k ks where "clips = k # ks" and "jclip = foldl (@) k ks"
    by (auto simp: gen_joined_clip_def split: list.splits)
  then have one: "length jclip = sum_list (map length clips)"
    by (simp add: length_foldl_append)
  with total lastj sum0 show ?thesis by simp
qed

text \<open>
  C6: when the first split and join succeed and the last joined boundary does not
  exceed the number of decoded frames, \<open>split_titles\<close> returns their results
  uncorrected, the joined clip has as many frames as the split clips together, and
  the last joined boundary is that number of frames.  The last boundary of every
  title is taken to be non-negative, as frame offsets are.
\<close>

theorem split_titles_lengths:
  assumes "get_dvd_menu_length (index_info self) = Inr dvd_menu_length"
    and "split_and_join (clip self) (chapters (ifo_info self)) dvd_menu_length
           = Inr (clips, sc, jclip, jchapts)"
    and "\<forall>c\<in>set (chapters (ifo_info self)). 0 \<le> last c"
    and "last jchapts \<le> int (length (clip self))"
  shows "split_titles self =
           Inr (self\<lparr>ifo_info := (ifo_info self)\<lparr>chapters := sc\<rparr>,
                     split_clips := Some clips, split_chapters := Some sc,
                     joined_clip := Some jclip, joined_chapters := Some jchapts\<rparr>)
       \<and> length jclip = sum_list (map length clips)
       \<and> last jchapts = int (length jclip)"
proof -
  from assms(1) have menu: "0 \<le> dvd_menu_length"
    by (auto simp: get_dvd_menu_length_def split: list.splits)
  from split_and_join_nonempty [OF assms(2)] have "py_index jchapts (- 1) = Inr (last jchapts)"
    by (rule py_index_last)
  with assms(1,2,4) have "split_titles self =
           Inr (self\<lparr>ifo_info := (ifo_info self)\<lparr>chapters := sc\<rparr>,
                     split_clips := Some clips, split_chapters := Some sc,
                     joined_clip := Some jclip, joined_chapters := Some jchapts\<rparr>)"
    by (simp add: split_titles_def Let_def)
  with joined_lengths [OF assms(2) menu assms(3,4)] show ?thesis by simp
qed

theorem split_titles_lengths_witness:
  "split_titles (disc True [0..<300::nat] [[0, 100, 200], [0, 50, 100]]) =
     Inr ((disc True [0..<300] [[0, 100, 200, 250, 300], [0, 50, 100]])
          \<lparr>split_clips := Some [[0..<200], [200..<300]],
           split_chapters := Some [[0, 100, 200, 250, 300], [0, 50, 100]],
           joined_clip := Some [0..<300], joined_chapters := Some [0, 100, 200, 250, 300]\<rparr>)
   \<and> length [0..<300::nat] = sum_list (map length [[0..<200::nat], [200..<300]])
   \<and> last [0, 100, 200, 250, 300] = int (length [0..<300::nat])"
proof -
  let ?d = "disc True [0..<300::nat] [[0, 100, 200], [0, 50, 100]]"
  have a: "get_dvd_menu_length (index_info ?d) = Inr 0"
    by (simp add: disc_def get_dvd_menu_length_def)
  have b: "split_and_join (clip ?d) (chapters (ifo_info ?d)) 0
        = Inr ([[0..<200], [200..<300]], [[0, 100, 200, 250, 300], [0, 50, 100]],
               [0..<300], [0, 100, 200, 250, 300])"
    by (simp add: split_defs upt_add_eq_append [of 0 200 100, simplified])
  have c: "\<forall>c\<in>set (chapters (ifo_info ?d)). 0 \<le> last c" by (simp add: disc_def)
  have d: "last [0, 100, 200, 250, 300] \<le> int (length (clip ?d))" by (simp add: disc_def)
  from split_titles_lengths [OF a b c d] show ?thesis by (simp add: disc_def)
qed

end
